theory Spec2Isabelle
  imports Main "HOL-Library.Word"
begin

section \<open>Machine integers, positions and formatted errors\<close>

text \<open>
  Go's \<^verbatim>\<open>int\<close> is a two's-complement machine integer: \<^verbatim>\<open>+\<close> and \<^verbatim>\<open>-\<close> wrap
  around and never panic, and \<^verbatim>\<open><=\<close> compares the signed values. It is modelled at the
  64 bits it has on the platforms gopls is built for; \<^verbatim>\<open>token.Pos\<close> is declared as
  \<^verbatim>\<open>type Pos int\<close> in go/token, with \<^verbatim>\<open>NoPos = 0\<close>.
\<close>

type_synonym go_int = "64 word"

type_synonym Pos = go_int

definition NoPos :: Pos where
  "NoPos = 0"

definition MaxInt :: int where
  "MaxInt = 9223372036854775807"

text \<open>
  An \<^verbatim>\<open>error\<close> built by \<^verbatim>\<open>fmt.Errorf\<close> is its message; a nil error is \<open>None\<close>.
  The verb \<^verbatim>\<open>%d\<close> prints a signed integer in decimal, \<^verbatim>\<open>%s\<close> a string as it is.
\<close>

type_synonym error = string

definition digit_char :: "nat \<Rightarrow> char" where
  "digit_char n = ''0123456789'' ! n"

function nat_digits :: "nat \<Rightarrow> string" where
  "nat_digits n =
     (if n < 10 then [digit_char n] else nat_digits (n div 10) @ [digit_char (n mod 10)])"
  by pat_completeness auto
termination
  by (relation "measure id") auto

declare nat_digits.simps [simp del]

definition fmt_d :: "int \<Rightarrow> string" where
  "fmt_d i = (if i < 0 then CHR ''-'' # nat_digits (nat (- i)) else nat_digits (nat i))"

section \<open>The file handle of go/token\<close>

text \<open>
  \<^verbatim>\<open>*token.File\<close> is read by the three accessors \<^verbatim>\<open>Name()\<close>, \<^verbatim>\<open>Base()\<close> and
  \<^verbatim>\<open>Size()\<close> only, so a file is the record of these three values. The parameter
  \<^verbatim>\<open>f *token.File\<close> is a pointer: \<open>Some\<close> of a file, or \<open>None\<close> for nil. The
  functions on a file come first; the calls through the pointer, with the nil case,
  follow them.
\<close>

record File =
  Name :: string
  Base :: go_int
  Size :: go_int

text \<open>
  Modelled from the spec: the declaration of \<^verbatim>\<open>token.File\<close> and the registry that creates
  files belong to go/token, outside this repository. The data model gives the invariant of a
  registered file as \<open>base \<ge> 0\<close>, \<open>size \<ge> 0\<close>, with the registered positions in
  \<open>[base, base+size]\<close>; the one-past-EOF position \<open>base+size+1\<close> that the bounds checker
  tolerates is a position too, so all of \<open>base \<dots> base+size+1\<close> are representable
  integers (the registry of go/token reserves \<open>base+size+1\<close> for every file it adds and
  rejects a file whose range would overflow).
\<close>

definition valid_file :: "File \<Rightarrow> bool" where
  "valid_file f \<longleftrightarrow>
     0 \<le> sint (Base f) \<and> 0 \<le> sint (Size f) \<and> sint (Base f) + sint (Size f) + 1 \<le> MaxInt"

section \<open>safetoken: the bounds-checked conversions\<close>

text \<open>
  \<^verbatim>\<open>func inRange(f *token.File, pos token.Pos) bool\<close>:
  \<^verbatim>\<open>token.Pos(f.Base()) <= pos && pos <= token.Pos(f.Base()+f.Size())\<close>.
\<close>

definition inRange :: "File \<Rightarrow> Pos \<Rightarrow> bool" where
  "inRange f pos \<longleftrightarrow> Base f \<le>s pos \<and> pos \<le>s Base f + Size f"

text \<open>
  \<^verbatim>\<open>func Offset(f *token.File, pos token.Pos) (int, error)\<close>. The result is the pair
  Go returns: the offset and the error, \<open>None\<close> for nil.
\<close>

definition Offset :: "File \<Rightarrow> Pos \<Rightarrow> go_int \<times> error option" where
  "Offset f pos =
     (if \<not> inRange f pos then
        (if pos = Base f + Size f + 1 then (Size f, None)
         else (- 1, Some (''pos '' @ fmt_d (sint pos) @ '' is not in range ['' @
                 fmt_d (sint (Base f)) @ '':'' @ fmt_d (sint (Base f + Size f)) @
                 ''] of file '' @ Name f)))
      else (pos - Base f, None))"

text \<open>\<^verbatim>\<open>func Pos(f *token.File, offset int) (token.Pos, error)\<close>.\<close>

definition Pos :: "File \<Rightarrow> go_int \<Rightarrow> Pos \<times> error option" where
  "Pos f offset =
     (if \<not> (0 \<le>s offset \<and> offset \<le>s Size f) then
        (NoPos, Some (''offset '' @ fmt_d (sint offset) @ '' is not in range for file '' @
                 Name f @ '' of size '' @ fmt_d (sint (Size f))))
      else (Base f + offset, None))"

section \<open>safetoken: the calls through the pointer\<close>

text \<open>
  A call either returns a value or panics. The only operation of \<^verbatim>\<open>Offset\<close>,
  \<^verbatim>\<open>Pos\<close> and \<^verbatim>\<open>inRange\<close> that can panic is a method call on \<^verbatim>\<open>f\<close>: the
  accessors of go/token read a field of their receiver, which is a nil pointer dereference
  when \<^verbatim>\<open>f\<close> is nil. Comparisons, wrapping arithmetic and \<^verbatim>\<open>fmt.Errorf\<close> always
  return. \<open>and_then\<close> sequences two steps: a panic in the first ends the call.
\<close>

datatype 'a outcome = Returns 'a | Panics

definition and_then :: "'a outcome \<Rightarrow> ('a \<Rightarrow> 'b outcome) \<Rightarrow> 'b outcome" where
  "and_then x k = (case x of Panics \<Rightarrow> Panics | Returns v \<Rightarrow> k v)"

text \<open>\<^verbatim>\<open>f.Name()\<close>, \<^verbatim>\<open>f.Base()\<close> and \<^verbatim>\<open>f.Size()\<close> on a pointer.\<close>

definition call_Name :: "File option \<Rightarrow> string outcome" where
  "call_Name p = (case p of None \<Rightarrow> Panics | Some f \<Rightarrow> Returns (Name f))"

definition call_Base :: "File option \<Rightarrow> go_int outcome" where
  "call_Base p = (case p of None \<Rightarrow> Panics | Some f \<Rightarrow> Returns (Base f))"

definition call_Size :: "File option \<Rightarrow> go_int outcome" where
  "call_Size p = (case p of None \<Rightarrow> Panics | Some f \<Rightarrow> Returns (Size f))"

text \<open>
  \<^verbatim>\<open>inRange\<close>, \<^verbatim>\<open>Offset\<close> and \<^verbatim>\<open>Pos\<close> once more, statement by statement, with every
  accessor call in the order Go evaluates it: operands left to right, the right operand of
  \<^verbatim>\<open>&&\<close> only when the left one is true, the arguments of \<^verbatim>\<open>fmt.Errorf\<close> left to
  right.
\<close>

definition inRange_call :: "File option \<Rightarrow> Pos \<Rightarrow> bool outcome" where
  "inRange_call p pos =
     and_then (call_Base p) (\<lambda>b.
       if \<not> b \<le>s pos then Returns False
       else and_then (call_Base p) (\<lambda>b'.
            and_then (call_Size p) (\<lambda>s.
              Returns (pos \<le>s b' + s))))"

definition Offset_call :: "File option \<Rightarrow> Pos \<Rightarrow> (go_int \<times> error option) outcome" where
  "Offset_call p pos =
     and_then (inRange_call p pos) (\<lambda>inside.
       if \<not> inside then
         and_then (call_Base p) (\<lambda>b.
         and_then (call_Size p) (\<lambda>s.
           if pos = b + s + 1 then
             and_then (call_Size p) (\<lambda>s'. Returns (s', None))
           else
             and_then (call_Base p) (\<lambda>b1.
             and_then (call_Base p) (\<lambda>b2.
             and_then (call_Size p) (\<lambda>s2.
             and_then (call_Name p) (\<lambda>n.
               Returns (- 1, Some (''pos '' @ fmt_d (sint pos) @ '' is not in range ['' @
                          fmt_d (sint b1) @ '':'' @ fmt_d (sint (b2 + s2)) @
                          ''] of file '' @ n))))))))
       else and_then (call_Base p) (\<lambda>b. Returns (pos - b, None)))"

definition Pos_call :: "File option \<Rightarrow> go_int \<Rightarrow> (Pos \<times> error option) outcome" where
  "Pos_call p offset =
     and_then (if 0 \<le>s offset then and_then (call_Size p) (\<lambda>s. Returns (offset \<le>s s))
               else Returns False) (\<lambda>ok.
       if \<not> ok then
         and_then (call_Name p) (\<lambda>n.
         and_then (call_Size p) (\<lambda>s.
           Returns (NoPos, Some (''offset '' @ fmt_d (sint offset) @
                      '' is not in range for file '' @ n @ '' of size '' @ fmt_d (sint s)))))
       else and_then (call_Base p) (\<lambda>b. Returns (b + offset, None)))"

section \<open>The position mapper\<close>

text \<open>
  The test \<^verbatim>\<open>TestBytesOffset\<close> drives \<^verbatim>\<open>protocol.NewMapper\<close> and
  \<^verbatim>\<open>Mapper.PositionPoint\<close>, whose package is not among the source files verified here. The
  definitions of this section are therefore written from the specification (data model, and
  component design of LineTable, Utf16Translator and Mapper); each says so. Offsets, lines
  and columns are natural numbers: the wire encoding and byte offsets are non-negative, so
  the failures the specification lists for negative inputs have no counterpart here.
\<close>

type_synonym byte = "8 word"

type_synonym Content = "byte list"

text \<open>Modelled from the spec: the error kinds of the coordinate engine (section 7).\<close>

datatype MapperError = OutOfRange | InvalidLine | InvalidColumn

text \<open>
  Modelled from the spec: ProtocolPosition, \<open>(line, utf16Column)\<close>, both zero-based, the
  column counted in UTF-16 code units from the start of the line.
\<close>

record ProtocolPosition =
  line :: nat
  utf16Column :: nat

text \<open>
  Modelled from the spec: LineTable, the ordered sequence of line-start offsets, first entry
  \<open>0\<close>, together with the length of the content it indexes (which \<open>lineOfOffset\<close> checks
  its argument against).
\<close>

record LineTable =
  lineStarts :: "nat list"
  contentSize :: nat

text \<open>Modelled from the spec: Mapper, which binds one Content and LineTable pair.\<close>

record Mapper =
  content :: Content
  lineTable :: LineTable

text \<open>Modelled from the spec: the line-terminator byte, the line feed.\<close>

definition terminator :: byte where
  "terminator = 0x0A"

text \<open>
  Modelled from the spec: \<open>build(content)\<close> scans the content once, recording the offset
  immediately following every line-terminator byte as the next line's start; the table of
  the empty content has exactly the entry \<open>0\<close>, and a final terminator opens a last, empty
  line. \<open>scan_lines i bs\<close> is the scan of the bytes \<open>bs\<close> that begin at offset \<open>i\<close>.
\<close>

fun scan_lines :: "nat \<Rightarrow> Content \<Rightarrow> nat list" where
  "scan_lines i [] = []"
| "scan_lines i (b # bs) =
     (if b = terminator then Suc i # scan_lines (Suc i) bs else scan_lines (Suc i) bs)"

definition build :: "Content \<Rightarrow> LineTable" where
  "build c = \<lparr>lineStarts = 0 # scan_lines 0 c, contentSize = length c\<rparr>"

text \<open>
  Modelled from the spec: \<open>lineOfOffset(offset)\<close> is a binary search over the line-start
  offsets for the greatest start \<open>\<le> offset\<close>; it fails with OutOfRange if the offset
  exceeds the content length. \<open>search starts offset lo hi\<close> narrows the half-open
  interval of lines \<open>[lo, hi)\<close>, keeping \<open>starts ! lo \<le> offset\<close>.
\<close>

function search :: "nat list \<Rightarrow> nat \<Rightarrow> nat \<Rightarrow> nat \<Rightarrow> nat" where
  "search starts offset lo hi =
     (if hi \<le> Suc lo then lo
      else (let mid = (lo + hi) div 2
            in if starts ! mid \<le> offset then search starts offset mid hi
               else search starts offset lo mid))"
  by pat_completeness auto
termination
  by (relation "measure (\<lambda>(starts, offset, lo, hi). hi - lo)") auto

declare search.simps [simp del]

definition lineOfOffset :: "LineTable \<Rightarrow> nat \<Rightarrow> MapperError + nat" where
  "lineOfOffset t offset =
     (if contentSize t < offset then Inl OutOfRange
      else Inr (search (lineStarts t) offset 0 (length (lineStarts t))))"

text \<open>
  Modelled from the spec: \<open>offsetOfLine(line)\<close> is a direct index into the table; it fails
  with InvalidLine if the line is not below the table length.
\<close>

definition offsetOfLine :: "LineTable \<Rightarrow> nat \<Rightarrow> MapperError + nat" where
  "offsetOfLine t l =
     (if length (lineStarts t) \<le> l then Inl InvalidLine else Inr (lineStarts t ! l))"

text \<open>
  Modelled from the spec: the translator decodes one character at a time; a character is
  encoded in 1 to 4 bytes of UTF-8. \<open>char_width bs\<close> is the number of bytes of the first
  character of \<open>bs\<close>: the lead byte announces 2, 3 or 4 bytes, which are taken when that
  many continuation bytes (\<open>10xxxxxx\<close>) follow; any other byte, and a lead byte whose
  continuation bytes are missing, stands for a character of its own, one byte wide (the
  specification is silent on malformed input; this is the usual reading of a decoder that
  always advances).
\<close>

definition is_continuation :: "byte \<Rightarrow> bool" where
  "is_continuation b \<longleftrightarrow> 0x80 \<le> b \<and> b < 0xC0"

definition continuations :: "nat \<Rightarrow> byte list \<Rightarrow> bool" where
  "continuations n bs \<longleftrightarrow> n \<le> length bs \<and> list_all is_continuation (take n bs)"

definition char_width :: "byte list \<Rightarrow> nat" where
  "char_width bs =
     (case bs of
        [] \<Rightarrow> 0
      | b # rest \<Rightarrow>
          if 0xC0 \<le> b \<and> b < 0xE0 \<and> continuations 1 rest then 2
          else if 0xE0 \<le> b \<and> b < 0xF0 \<and> continuations 2 rest then 3
          else if 0xF0 \<le> b \<and> b < 0xF8 \<and> continuations 3 rest then 4
          else 1)"

text \<open>
  Modelled from the spec: characters encoding as 1 to 3 UTF-8 bytes contribute 1 UTF-16
  unit; characters encoding as 4 UTF-8 bytes contribute 2 (a surrogate pair).
\<close>

definition utf16_units :: "nat \<Rightarrow> nat" where
  "utf16_units w = (if w = 4 then 2 else 1)"

text \<open>
  Modelled from the spec: \<open>byteColumnForUtf16(lineBytes, utf16Col)\<close> walks the line's
  characters, accumulating a running UTF-16-unit count (\<open>units\<close>) beside the bytes
  consumed (\<open>bytes\<close>). A column on a character boundary gives that character's starting
  byte offset; a column on the second unit of a surrogate pair gives the byte offset of the
  start of that character; a column beyond the UTF-16 length of the line fails with
  InvalidColumn; column \<open>0\<close> and the column equal to the line's UTF-16 length are valid.
\<close>

function utf16_scan :: "byte list \<Rightarrow> nat \<Rightarrow> nat \<Rightarrow> nat \<Rightarrow> MapperError + nat" where
  "utf16_scan bs utf16Col units bytes =
     (if units = utf16Col then Inr bytes
      else if bs = [] then Inl InvalidColumn
      else if utf16Col < units + utf16_units (char_width bs) then Inr bytes
      else utf16_scan (drop (char_width bs) bs) utf16Col
             (units + utf16_units (char_width bs)) (bytes + char_width bs))"
  by pat_completeness auto
termination
  by (relation "measure (\<lambda>(bs, utf16Col, units, bytes). length bs)")
    (auto simp: char_width_def split: list.splits)

declare utf16_scan.simps [simp del]

definition byteColumnForUtf16 :: "byte list \<Rightarrow> nat \<Rightarrow> MapperError + nat" where
  "byteColumnForUtf16 lineBytes utf16Col = utf16_scan lineBytes utf16Col 0 0"

text \<open>
  Modelled from the spec: \<open>utf16ColumnForByteColumn(lineBytes, byteCol)\<close> accumulates
  UTF-16 units while consuming bytes until \<open>byteCol\<close> bytes have been consumed; it fails
  if \<open>byteCol\<close> does not land on a character boundary or exceeds the line length.
\<close>

function byte_scan :: "byte list \<Rightarrow> nat \<Rightarrow> nat \<Rightarrow> nat \<Rightarrow> MapperError + nat" where
  "byte_scan bs byteCol bytes units =
     (if bytes = byteCol then Inr units
      else if bs = [] then Inl InvalidColumn
      else if byteCol < bytes + char_width bs then Inl InvalidColumn
      else byte_scan (drop (char_width bs) bs) byteCol
             (bytes + char_width bs) (units + utf16_units (char_width bs)))"
  by pat_completeness auto
termination
  by (relation "measure (\<lambda>(bs, byteCol, bytes, units). length bs)")
    (auto simp: char_width_def split: list.splits)

declare byte_scan.simps [simp del]

definition utf16ColumnForByteColumn :: "byte list \<Rightarrow> nat \<Rightarrow> MapperError + nat" where
  "utf16ColumnForByteColumn lineBytes byteCol = byte_scan lineBytes byteCol 0 0"

text \<open>
  Modelled from the spec: a byte column lies on a character boundary of a byte sequence when
  the walk over whole characters reaches it, the start and the end of the sequence
  included. This is the hypothesis of the two round-trip properties.
\<close>

function char_boundary :: "byte list \<Rightarrow> nat \<Rightarrow> bool" where
  "char_boundary bs k =
     (if k = 0 then True
      else if bs = [] then False
      else if k < char_width bs then False
      else char_boundary (drop (char_width bs) bs) (k - char_width bs))"
  by pat_completeness auto
termination
  by (relation "measure (\<lambda>(bs, k). length bs)")
    (auto simp: char_width_def split: list.splits)

declare char_boundary.simps [simp del]

text \<open>
  Modelled from the spec: a Mapper is created once per snapshot from the content, with the
  line table built from it.
\<close>

definition NewMapper :: "Content \<Rightarrow> Mapper" where
  "NewMapper c = \<lparr>content = c, lineTable = build c\<rparr>"

text \<open>
  Modelled from the spec: the bytes of one line, sliced out of the content from the line's
  start up to, and excluding, its terminator (the byte before the next line's start); the
  last line ends with the content.
\<close>

definition lineBytes :: "Mapper \<Rightarrow> nat \<Rightarrow> byte list" where
  "lineBytes m l =
     (let starts = lineStarts (lineTable m);
          start = starts ! l;
          end = (if Suc l < length starts then starts ! Suc l - 1
                 else contentSize (lineTable m))
      in take (end - start) (drop start (content m)))"

text \<open>
  Modelled from the spec: \<open>positionToOffset(protocolPosition)\<close> looks up the line start
  via the LineTable (InvalidLine if out of range), slices that line's bytes out of the
  content, delegates column resolution to the translator, and returns
  \<open>lineStart + byteColumn\<close>.
\<close>

definition positionToOffset :: "Mapper \<Rightarrow> ProtocolPosition \<Rightarrow> MapperError + nat" where
  "positionToOffset m p =
     (case offsetOfLine (lineTable m) (line p) of
        Inl e \<Rightarrow> Inl e
      | Inr lineStart \<Rightarrow>
          (case byteColumnForUtf16 (lineBytes m (line p)) (utf16Column p) of
             Inl e \<Rightarrow> Inl e
           | Inr byteColumn \<Rightarrow> Inr (lineStart + byteColumn)))"

text \<open>
  Modelled from the spec: \<open>offsetToPosition(byteOffset)\<close> validates the offset
  (\<open>offset \<le> size\<close>), finds the owning line via \<open>lineOfOffset\<close>, computes the byte
  column as \<open>offset - lineStart\<close>, and delegates to the translator to produce the UTF-16
  column.
\<close>

definition offsetToPosition :: "Mapper \<Rightarrow> nat \<Rightarrow> MapperError + ProtocolPosition" where
  "offsetToPosition m byteOffset =
     (if contentSize (lineTable m) < byteOffset then Inl OutOfRange
      else
        (case lineOfOffset (lineTable m) byteOffset of
           Inl e \<Rightarrow> Inl e
         | Inr l \<Rightarrow>
             (case utf16ColumnForByteColumn (lineBytes m l)
                     (byteOffset - lineStarts (lineTable m) ! l) of
                Inl e \<Rightarrow> Inl e
              | Inr u \<Rightarrow> Inr \<lparr>line = l, utf16Column = u\<rparr>)))"

section \<open>Arithmetic without overflow\<close>

lemma sint_add_exact:
  fixes a b :: go_int
  assumes "- (2 ^ 63) \<le> sint a + sint b" and "sint a + sint b < 2 ^ 63"
  shows "sint (a + b) = sint a + sint b"
  using assms by (simp add: sint_word_ariths signed_take_bit_int_eq_self)

lemma sint_sub_exact:
  fixes a b :: go_int
  assumes "- (2 ^ 63) \<le> sint a - sint b" and "sint a - sint b < 2 ^ 63"
  shows "sint (a - b) = sint a - sint b"
  using assms by (simp add: sint_word_ariths signed_take_bit_int_eq_self)

lemma sint_bounds:
  fixes a :: go_int
  shows "- (2 ^ 63) \<le> sint a" and "sint a < 2 ^ 63"
  using sint_ge [of a] sint_lt [of a] by simp_all

lemma go_int_eqI:
  fixes a b :: go_int
  shows "sint a = sint b \<Longrightarrow> a = b"
  by (rule signed_word_eqI)

text \<open>In a registered file the end and the one-past-EOF position are computed exactly.\<close>

lemma valid_end:
  assumes "valid_file f"
  shows "sint (Base f + Size f) = sint (Base f) + sint (Size f)"
  using assms by (intro sint_add_exact) (simp_all add: valid_file_def MaxInt_def)

lemma valid_end1:
  assumes "valid_file f"
  shows "sint (Base f + Size f + 1) = sint (Base f) + sint (Size f) + 1"
proof -
  have "sint (Base f + Size f + 1) = sint (Base f + Size f) + sint (1 :: go_int)"
    using assms by (intro sint_add_exact) (simp_all add: valid_end valid_file_def MaxInt_def)
  then show ?thesis
    using assms by (simp add: valid_end)
qed

lemma inRange_iff:
  assumes "valid_file f"
  shows "inRange f pos \<longleftrightarrow>
           sint (Base f) \<le> sint pos \<and> sint pos \<le> sint (Base f) + sint (Size f)"
  using assms by (simp add: inRange_def word_sle_eq valid_end)

section \<open>Properties of the bounds-checked conversions\<close>

lemma Offset_inside:
  assumes "valid_file f" and "sint (Base f) \<le> sint pos"
    and "sint pos \<le> sint (Base f) + sint (Size f)"
  shows "Offset f pos = (pos - Base f, None)"
    and "sint (pos - Base f) = sint pos - sint (Base f)"
proof -
  show "Offset f pos = (pos - Base f, None)"
    using assms by (simp add: Offset_def inRange_iff)
  show "sint (pos - Base f) = sint pos - sint (Base f)"
    using assms sint_bounds [of pos] sint_bounds [of "Base f"]
    by (intro sint_sub_exact) (simp_all add: valid_file_def MaxInt_def)
qed

lemma Offset_eof1:
  assumes "valid_file f" and "sint pos = sint (Base f) + sint (Size f) + 1"
  shows "Offset f pos = (Size f, None)"
proof -
  have "pos = Base f + Size f + 1"
    using assms by (intro go_int_eqI) (simp add: valid_end1)
  moreover have "\<not> inRange f pos"
    using assms by (simp add: inRange_iff)
  ultimately show ?thesis
    by (simp add: Offset_def)
qed

lemma Offset_outside:
  assumes "valid_file f"
    and "sint pos < sint (Base f) \<or> sint (Base f) + sint (Size f) + 1 < sint pos"
  shows "Offset f pos =
           (- 1, Some (''pos '' @ fmt_d (sint pos) @ '' is not in range ['' @
              fmt_d (sint (Base f)) @ '':'' @ fmt_d (sint (Base f) + sint (Size f)) @
              ''] of file '' @ Name f))"
proof -
  have "pos \<noteq> Base f + Size f + 1"
    using assms valid_end1 [of f] by (auto simp: valid_file_def)
  moreover have "\<not> inRange f pos"
    using assms by (auto simp: inRange_iff valid_file_def)
  ultimately show ?thesis
    using assms(1) by (simp add: Offset_def valid_end)
qed

lemma Offset_two_past:
  assumes "valid_file f"
  shows "sint (Base f + Size f + 2) < sint (Base f) \<or>
         sint (Base f) + sint (Size f) + 1 < sint (Base f + Size f + 2)"
proof (cases "sint (Base f) + sint (Size f) + 1 = MaxInt")
  case True
  have "Base f + Size f + 2 = (Base f + Size f + 1) + 1"
    by simp
  moreover have "sint (Base f + Size f + 1) = 2 ^ 63 - 1"
    using assms True by (simp add: valid_end1 MaxInt_def)
  then have "Base f + Size f + 1 = (0x7FFFFFFFFFFFFFFF :: go_int)"
    by (intro go_int_eqI) simp
  ultimately have "sint (Base f + Size f + 2) = - (2 ^ 63)"
    by simp
  with assms show ?thesis
    by (simp add: valid_file_def)
next
  case False
  have eq: "Base f + Size f + 2 = (Base f + Size f + 1) + 1"
    by simp
  have "sint ((Base f + Size f + 1) + 1) = sint (Base f + Size f + 1) + sint (1 :: go_int)"
    using assms False
    by (intro sint_add_exact) (simp_all add: valid_end1 valid_file_def MaxInt_def)
  also have "\<dots> = sint (Base f) + sint (Size f) + 1 + 1"
    using assms by (simp only: valid_end1) simp
  finally have "sint (Base f + Size f + 2) = sint (Base f) + sint (Size f) + 1 + 1"
    by (simp only: eq)
  then show ?thesis
    by linarith
qed

lemma Pos_inside:
  assumes "valid_file f" and "0 \<le> sint offset" and "sint offset \<le> sint (Size f)"
  shows "Pos f offset = (Base f + offset, None)"
    and "sint (Base f + offset) = sint (Base f) + sint offset"
proof -
  show "Pos f offset = (Base f + offset, None)"
    using assms by (simp add: Pos_def word_sle_eq)
  show "sint (Base f + offset) = sint (Base f) + sint offset"
    using assms by (intro sint_add_exact) (simp_all add: valid_file_def MaxInt_def)
qed

lemma Pos_outside:
  assumes "sint offset < 0 \<or> sint (Size f) < sint offset"
  shows "Pos f offset =
           (NoPos, Some (''offset '' @ fmt_d (sint offset) @ '' is not in range for file '' @
              Name f @ '' of size '' @ fmt_d (sint (Size f))))"
  using assms by (auto simp: Pos_def word_sle_eq)

text \<open>
  Claim C1. For a registered file with base \<open>b\<close> and size \<open>s\<close>, \<open>Offset\<close> at the position
  \<open>b + s + 1\<close>, exactly one byte past the end, succeeds and returns \<open>s\<close>; at the position
  \<open>b + s + 2\<close> it fails: the result is \<open>-1\<close> with a non-nil error. Positions are read
  as signed integers (\<open>sint\<close>); the last three conjuncts say the same of the positions
  computed in machine arithmetic, where \<open>b + s + 2\<close> may wrap around.
\<close>

theorem Offset_one_past_EOF:
  assumes "valid_file f"
  shows "(sint pos = sint (Base f) + sint (Size f) + 1 \<longrightarrow> Offset f pos = (Size f, None)) \<and>
         (sint pos = sint (Base f) + sint (Size f) + 2 \<longrightarrow>
            fst (Offset f pos) = - 1 \<and> snd (Offset f pos) \<noteq> None) \<and>
         Offset f (Base f + Size f + 1) = (Size f, None) \<and>
         fst (Offset f (Base f + Size f + 2)) = - 1 \<and>
         snd (Offset f (Base f + Size f + 2)) \<noteq> None"
  using assms Offset_eof1 [of f pos] Offset_outside [of f pos]
    Offset_eof1 [of f "Base f + Size f + 1"] valid_end1 [of f]
    Offset_outside [OF assms Offset_two_past [OF assms]]
  by auto

theorem Offset_one_past_EOF_witness:
  "valid_file \<lparr>Name = ''a.go'', Base = 1, Size = 3\<rparr> \<and>
   sint (5 :: Pos) = sint (1 :: go_int) + sint (3 :: go_int) + 1 \<and>
   Offset \<lparr>Name = ''a.go'', Base = 1, Size = 3\<rparr> 5 = (3, None) \<and>
   sint (6 :: Pos) = sint (1 :: go_int) + sint (3 :: go_int) + 2 \<and>
   fst (Offset \<lparr>Name = ''a.go'', Base = 1, Size = 3\<rparr> 6) = - 1 \<and>
   snd (Offset \<lparr>Name = ''a.go'', Base = 1, Size = 3\<rparr> 6) \<noteq> None"
proof -
  have v: "valid_file \<lparr>Name = ''a.go'', Base = 1, Size = 3\<rparr>"
    by (simp add: valid_file_def MaxInt_def)
  show ?thesis
    using v Offset_one_past_EOF [OF v, of 5] Offset_one_past_EOF [OF v, of 6] by simp
qed

text \<open>
  Claim C2. For a registered file with base \<open>b\<close> and size \<open>s\<close>, \<open>Offset\<close> at a position
  \<open>pos\<close> with \<open>b \<le> pos \<le> b + s\<close> succeeds and returns \<open>pos - b\<close>, computed without
  wrap-around; at a position outside \<open>[b, b + s + 1]\<close> it fails with the error whose
  message names the offending position and the interval \<open>[b:b+s]\<close> of the file.
\<close>

theorem Offset_in_range_or_error:
  assumes "valid_file f"
  shows "(sint (Base f) \<le> sint pos \<and> sint pos \<le> sint (Base f) + sint (Size f) \<longrightarrow>
            Offset f pos = (pos - Base f, None) \<and>
            sint (pos - Base f) = sint pos - sint (Base f)) \<and>
         (sint pos < sint (Base f) \<or> sint (Base f) + sint (Size f) + 1 < sint pos \<longrightarrow>
            Offset f pos =
              (- 1, Some (''pos '' @ fmt_d (sint pos) @ '' is not in range ['' @
                 fmt_d (sint (Base f)) @ '':'' @ fmt_d (sint (Base f) + sint (Size f)) @
                 ''] of file '' @ Name f)))"
  using assms Offset_inside [of f pos] Offset_outside [of f pos] by blast

theorem Offset_in_range_or_error_witness:
  "valid_file \<lparr>Name = ''a.go'', Base = 10, Size = 4\<rparr> \<and>
   Offset \<lparr>Name = ''a.go'', Base = 10, Size = 4\<rparr> 12 = (2, None) \<and>
   Offset \<lparr>Name = ''a.go'', Base = 10, Size = 4\<rparr> 9 =
     (- 1, Some ''pos 9 is not in range [10:14] of file a.go'') \<and>
   Offset \<lparr>Name = ''a.go'', Base = 10, Size = 4\<rparr> 16 =
     (- 1, Some ''pos 16 is not in range [10:14] of file a.go'')"
proof -
  have v: "valid_file \<lparr>Name = ''a.go'', Base = 10, Size = 4\<rparr>"
    by (simp add: valid_file_def MaxInt_def)
  show ?thesis
    using v Offset_in_range_or_error [OF v, of 12] Offset_in_range_or_error [OF v, of 9]
      Offset_in_range_or_error [OF v, of 16]
    by (simp add: fmt_d_def nat_digits.simps digit_char_def)
qed


text \<open>
  Claim C3. For a registered file with base \<open>b\<close> and size \<open>s\<close>, \<open>Pos\<close> at an offset with
  \<open>0 \<le> offset \<le> s\<close> succeeds and returns \<open>b + offset\<close>, computed without wrap-around;
  at any other offset it fails, with \<open>NoPos\<close> and the error that names the offset and the
  size. There is no tolerance past the end in this direction: the offset \<open>s + 1\<close> fails.
\<close>

theorem Pos_in_range_or_error:
  assumes "valid_file f"
  shows "(0 \<le> sint offset \<and> sint offset \<le> sint (Size f) \<longrightarrow>
            Pos f offset = (Base f + offset, None) \<and>
            sint (Base f + offset) = sint (Base f) + sint offset) \<and>
         (sint offset < 0 \<or> sint (Size f) < sint offset \<longrightarrow>
            Pos f offset =
              (NoPos, Some (''offset '' @ fmt_d (sint offset) @ '' is not in range for file '' @
                 Name f @ '' of size '' @ fmt_d (sint (Size f))))) \<and>
         (sint offset = sint (Size f) + 1 \<longrightarrow>
            fst (Pos f offset) = NoPos \<and> snd (Pos f offset) \<noteq> None)"
  using assms Pos_inside [of f offset] Pos_outside [of offset f] by auto

theorem Pos_in_range_or_error_witness:
  "valid_file \<lparr>Name = ''a.go'', Base = 10, Size = 4\<rparr> \<and>
   Pos \<lparr>Name = ''a.go'', Base = 10, Size = 4\<rparr> 4 = (14, None) \<and>
   Pos \<lparr>Name = ''a.go'', Base = 10, Size = 4\<rparr> 5 =
     (NoPos, Some ''offset 5 is not in range for file a.go of size 4'') \<and>
   Pos \<lparr>Name = ''a.go'', Base = 10, Size = 4\<rparr> (- 1) =
     (NoPos, Some ''offset -1 is not in range for file a.go of size 4'')"
proof -
  have v: "valid_file \<lparr>Name = ''a.go'', Base = 10, Size = 4\<rparr>"
    by (simp add: valid_file_def MaxInt_def)
  show ?thesis
    using v Pos_in_range_or_error [OF v, of 4] Pos_in_range_or_error [OF v, of 5]
      Pos_in_range_or_error [OF v, of "- 1"]
    by (simp add: fmt_d_def nat_digits.simps digit_char_def)
qed

text \<open>
  Through a pointer to a file the calls return what the functions on the file compute;
  through the nil pointer they panic at their first accessor call.
\<close>

lemma and_then_simps:
  "and_then (Returns v) k = k v" "and_then Panics k = Panics"
  by (simp_all add: and_then_def)

lemma call_Some:
  "call_Name (Some f) = Returns (Name f)" "call_Base (Some f) = Returns (Base f)"
  "call_Size (Some f) = Returns (Size f)"
  by (simp_all add: call_Name_def call_Base_def call_Size_def)

lemma call_None:
  "call_Name None = Panics" "call_Base None = Panics" "call_Size None = Panics"
  by (simp_all add: call_Name_def call_Base_def call_Size_def)

lemma inRange_call_Some: "inRange_call (Some f) pos = Returns (inRange f pos)"
  by (simp add: inRange_call_def inRange_def call_Some and_then_simps)

lemma Offset_call_Some: "Offset_call (Some f) pos = Returns (Offset f pos)"
  by (simp add: Offset_call_def Offset_def inRange_call_Some call_Some and_then_simps)

lemma Pos_call_Some: "Pos_call (Some f) offset = Returns (Pos f offset)"
  by (simp add: Pos_call_def Pos_def call_Some and_then_simps)

lemma Offset_call_None: "Offset_call None pos = Panics"
  by (simp add: Offset_call_def inRange_call_def call_None and_then_simps)

lemma Pos_call_None: "Pos_call None offset = Panics"
  by (simp add: Pos_call_def call_None and_then_simps)

lemma inRange_sint:
  "inRange f pos \<longleftrightarrow> sint (Base f) \<le> sint pos \<and> sint pos \<le> sint (Base f + Size f)"
  by (simp add: inRange_def word_sle_eq)

text \<open>
  Claim C4, as amended. For every non-nil file, whatever the position or offset, the calls
  of \<open>Offset\<close> and \<open>Pos\<close> return and do not panic. What they return is a pair: the error
  is nil exactly when the input passes the range test (for \<open>Offset\<close>: the position lies
  between the base and the wrapped sum of base and size, or is that sum plus one; for
  \<open>Pos\<close>: the offset lies between 0 and the size), and a non-nil error is paired with the
  sentinel, \<open>-1\<close> respectively \<open>NoPos\<close>.
\<close>

theorem non_nil_calls_return:
  "Offset_call (Some f) pos = Returns (Offset f pos) \<and>
   (snd (Offset f pos) = None \<longleftrightarrow>
      sint (Base f) \<le> sint pos \<and> sint pos \<le> sint (Base f + Size f) \<or>
      pos = Base f + Size f + 1) \<and>
   (snd (Offset f pos) \<noteq> None \<longrightarrow> fst (Offset f pos) = - 1) \<and>
   Pos_call (Some f) offset = Returns (Pos f offset) \<and>
   (snd (Pos f offset) = None \<longleftrightarrow> 0 \<le> sint offset \<and> sint offset \<le> sint (Size f)) \<and>
   (snd (Pos f offset) \<noteq> None \<longrightarrow> fst (Pos f offset) = NoPos)"
proof -
  have o: "(snd (Offset f pos) = None \<longleftrightarrow>
              sint (Base f) \<le> sint pos \<and> sint pos \<le> sint (Base f + Size f) \<or>
              pos = Base f + Size f + 1) \<and>
           (snd (Offset f pos) \<noteq> None \<longrightarrow> fst (Offset f pos) = - 1)"
    by (simp add: Offset_def inRange_sint)
  have p: "(snd (Pos f offset) = None \<longleftrightarrow> 0 \<le> sint offset \<and> sint offset \<le> sint (Size f)) \<and>
           (snd (Pos f offset) \<noteq> None \<longrightarrow> fst (Pos f offset) = NoPos)"
    by (simp add: Pos_def word_sle_eq)
  show ?thesis
    using Offset_call_Some [of f pos] conjunct1 [OF o] conjunct2 [OF o]
      Pos_call_Some [of f offset] conjunct1 [OF p] conjunct2 [OF p]
    by (intro conjI)
qed

theorem non_nil_calls_return_witness:
  "Offset_call (Some \<lparr>Name = ''a.go'', Base = 10, Size = 4\<rparr>) 16 =
     Returns (- 1, Some ''pos 16 is not in range [10:14] of file a.go'') \<and>
   Pos_call (Some \<lparr>Name = ''a.go'', Base = 10, Size = 4\<rparr>) 5 =
     Returns (NoPos, Some ''offset 5 is not in range for file a.go of size 4'') \<and>
   Offset_call (Some \<lparr>Name = ''a.go'', Base = 10, Size = 4\<rparr>) 12 = Returns (2, None) \<and>
   Pos_call (Some \<lparr>Name = ''a.go'', Base = 10, Size = 4\<rparr>) 4 = Returns (14, None)"
  using non_nil_calls_return [of "\<lparr>Name = ''a.go'', Base = 10, Size = 4\<rparr>" 16 5]
    non_nil_calls_return [of "\<lparr>Name = ''a.go'', Base = 10, Size = 4\<rparr>" 12 4]
  by (simp add: Offset_def Pos_def inRange_def word_sle_eq fmt_d_def nat_digits.simps
      digit_char_def)

text \<open>
  Claim C4 as it is written, for every input, fails at the nil file: neither function
  checks its pointer, and both panic there.
\<close>

theorem nil_file_panics:
  "Offset_call None 0 = Panics \<and> Pos_call None 0 = Panics"
  by (simp add: Offset_call_def inRange_call_def Pos_call_def call_None and_then_simps)

text \<open>
  Claim C9. For a registered file and an offset \<open>o\<close> with \<open>0 \<le> o \<le> size\<close>,
  \<open>Offset(f, Pos(f, o))\<close> succeeds and returns \<open>o\<close>. For a position with
  \<open>base \<le> pos \<le> base + size\<close>, \<open>Pos(f, Offset(f, pos))\<close> succeeds and returns \<open>pos\<close>.
  For the tolerated position \<open>pos = base + size + 1\<close> the composition succeeds too, but
  returns \<open>base + size\<close>, which is \<open>pos - 1\<close> and not \<open>pos\<close>.
\<close>

theorem Offset_Pos_round_trip:
  assumes "valid_file f"
  shows "(0 \<le> sint offset \<and> sint offset \<le> sint (Size f) \<longrightarrow>
            snd (Pos f offset) = None \<and> Offset f (fst (Pos f offset)) = (offset, None)) \<and>
         (sint (Base f) \<le> sint pos \<and> sint pos \<le> sint (Base f) + sint (Size f) \<longrightarrow>
            snd (Offset f pos) = None \<and> Pos f (fst (Offset f pos)) = (pos, None)) \<and>
         (sint pos = sint (Base f) + sint (Size f) + 1 \<longrightarrow>
            snd (Offset f pos) = None \<and>
            Pos f (fst (Offset f pos)) = (Base f + Size f, None) \<and>
            sint (Base f + Size f) = sint pos - 1 \<and> Base f + Size f \<noteq> pos)"
proof -
  have forward: "snd (Pos f offset) = None \<and> Offset f (fst (Pos f offset)) = (offset, None)"
    if a: "0 \<le> sint offset \<and> sint offset \<le> sint (Size f)"
  proof -
    have p: "Pos f offset = (Base f + offset, None)"
      and s: "sint (Base f + offset) = sint (Base f) + sint offset"
      using assms a by (simp_all add: Pos_inside)
    have "Offset f (Base f + offset) = (Base f + offset - Base f, None)"
      using assms a s by (intro Offset_inside) simp_all
    with p show ?thesis by simp
  qed
  have backward: "snd (Offset f pos) = None \<and> Pos f (fst (Offset f pos)) = (pos, None)"
    if a: "sint (Base f) \<le> sint pos \<and> sint pos \<le> sint (Base f) + sint (Size f)"
  proof -
    have o: "Offset f pos = (pos - Base f, None)"
      and s: "sint (pos - Base f) = sint pos - sint (Base f)"
      using assms a by (simp_all add: Offset_inside)
    have "Pos f (pos - Base f) = (Base f + (pos - Base f), None)"
      using assms a s by (intro Pos_inside) simp_all
    with o show ?thesis by simp
  qed
  have eof: "snd (Offset f pos) = None \<and>
      Pos f (fst (Offset f pos)) = (Base f + Size f, None) \<and>
      sint (Base f + Size f) = sint pos - 1 \<and> Base f + Size f \<noteq> pos"
    if a: "sint pos = sint (Base f) + sint (Size f) + 1"
  proof -
    have o: "Offset f pos = (Size f, None)"
      using assms a by (rule Offset_eof1)
    have p: "Pos f (Size f) = (Base f + Size f, None)"
      using assms by (intro Pos_inside) (simp_all add: valid_file_def)
    have e: "sint (Base f + Size f) = sint pos - 1"
      using assms a by (simp add: valid_end)
    then have "Base f + Size f \<noteq> pos"
      by auto
    with o p e show ?thesis by simp
  qed
  from forward backward eof show ?thesis by blast
qed

theorem Offset_Pos_round_trip_witness:
  "valid_file \<lparr>Name = ''a.go'', Base = 10, Size = 4\<rparr> \<and>
   Pos \<lparr>Name = ''a.go'', Base = 10, Size = 4\<rparr> 3 = (13, None) \<and>
   Offset \<lparr>Name = ''a.go'', Base = 10, Size = 4\<rparr> 13 = (3, None) \<and>
   Offset \<lparr>Name = ''a.go'', Base = 10, Size = 4\<rparr> 15 = (4, None) \<and>
   Pos \<lparr>Name = ''a.go'', Base = 10, Size = 4\<rparr> 4 = (14, None)"
proof -
  have v: "valid_file \<lparr>Name = ''a.go'', Base = 10, Size = 4\<rparr>"
    by (simp add: valid_file_def MaxInt_def)
  have p: "Pos \<lparr>Name = ''a.go'', Base = 10, Size = 4\<rparr> 3 = (13, None)"
    by (simp add: Pos_def word_sle_eq)
  have o: "Offset \<lparr>Name = ''a.go'', Base = 10, Size = 4\<rparr> 15 = (4, None)"
    by (simp add: Offset_def inRange_def word_sle_eq)
  show ?thesis
    using v p o Offset_Pos_round_trip [OF v, of 3 13] Offset_Pos_round_trip [OF v, of 4 15]
    by simp
qed

text \<open>
  Claim C10. For a registered file, whenever \<open>Offset\<close> succeeds the offset it returns lies
  in \<open>[0, size]\<close>; the tolerated one-past-EOF position yields exactly \<open>size\<close>; and
  whenever it fails, that is, returns a non-nil error, the offset it returns is \<open>-1\<close>
  (and the position was outside \<open>[base, base + size + 1]\<close>).
\<close>

theorem Offset_result_bounds:
  assumes "valid_file f"
  shows "(snd (Offset f pos) = None \<longrightarrow>
            0 \<le> sint (fst (Offset f pos)) \<and> sint (fst (Offset f pos)) \<le> sint (Size f)) \<and>
         (sint pos = sint (Base f) + sint (Size f) + 1 \<longrightarrow> Offset f pos = (Size f, None)) \<and>
         (snd (Offset f pos) \<noteq> None \<longrightarrow>
            fst (Offset f pos) = - 1 \<and>
            (sint pos < sint (Base f) \<or> sint (Base f) + sint (Size f) + 1 < sint pos))"
proof -
  have bounds: "0 \<le> sint (fst (Offset f pos)) \<and> sint (fst (Offset f pos)) \<le> sint (Size f)"
    if ok: "snd (Offset f pos) = None"
  proof (cases "inRange f pos")
    case True
    then have r: "sint (Base f) \<le> sint pos" "sint pos \<le> sint (Base f) + sint (Size f)"
      using assms by (simp_all add: inRange_iff)
    with assms have "Offset f pos = (pos - Base f, None)"
      and "sint (pos - Base f) = sint pos - sint (Base f)"
      by (simp_all add: Offset_inside)
    with r show ?thesis by simp
  next
    case False
    with ok have "Offset f pos = (Size f, None)"
      by (simp add: Offset_def split: if_splits)
    with assms show ?thesis by (simp add: valid_file_def)
  qed
  have eof: "Offset f pos = (Size f, None)"
    if "sint pos = sint (Base f) + sint (Size f) + 1"
    using assms that by (rule Offset_eof1)
  have sentinel: "fst (Offset f pos) = - 1" if "snd (Offset f pos) \<noteq> None"
    using that by (simp add: Offset_def split: if_splits)
  have outside: "sint pos < sint (Base f) \<or> sint (Base f) + sint (Size f) + 1 < sint pos"
    if failed: "snd (Offset f pos) \<noteq> None"
  proof (rule ccontr)
    assume "\<not> ?thesis"
    then consider "sint (Base f) \<le> sint pos \<and> sint pos \<le> sint (Base f) + sint (Size f)"
      | "sint pos = sint (Base f) + sint (Size f) + 1"
      by linarith
    then have "snd (Offset f pos) = None"
    proof cases
      case 1
      with assms show ?thesis by (simp add: Offset_inside)
    next
      case 2
      with eof show ?thesis by simp
    qed
    with failed show False by simp
  qed
  from bounds eof sentinel outside show ?thesis by blast
qed

theorem Offset_result_bounds_witness:
  "valid_file \<lparr>Name = ''a.go'', Base = 10, Size = 4\<rparr> \<and>
   Offset \<lparr>Name = ''a.go'', Base = 10, Size = 4\<rparr> 15 = (4, None) \<and>
   sint (fst (Offset \<lparr>Name = ''a.go'', Base = 10, Size = 4\<rparr> 12)) = 2 \<and>
   fst (Offset \<lparr>Name = ''a.go'', Base = 10, Size = 4\<rparr> 16) = - 1 \<and>
   snd (Offset \<lparr>Name = ''a.go'', Base = 10, Size = 4\<rparr> 16) \<noteq> None"
proof -
  have v: "valid_file \<lparr>Name = ''a.go'', Base = 10, Size = 4\<rparr>"
    by (simp add: valid_file_def MaxInt_def)
  show ?thesis
    using v Offset_result_bounds [OF v, of 15] Offset_result_bounds [OF v, of 12]
      Offset_result_bounds [OF v, of 16]
    by (simp add: Offset_def inRange_def word_sle_eq)
qed

section \<open>Properties of the translator between byte and UTF-16 columns\<close>

lemma char_width_pos: "bs \<noteq> [] \<Longrightarrow> 0 < char_width bs"
  by (cases bs) (simp_all add: char_width_def)

lemma char_width_le: "char_width bs \<le> length bs"
  by (cases bs) (simp_all add: char_width_def continuations_def)

lemma utf16_units_pos: "0 < utf16_units w"
  by (simp add: utf16_units_def)

lemma byte_scan_units_le: "byte_scan bs c b u = Inr r \<Longrightarrow> u \<le> r"
proof (induction bs c b u rule: byte_scan.induct)
  case (1 bs c b u)
  show ?case
  proof (cases "b = c")
    case True
    with "1.prems" show ?thesis by (simp add: byte_scan.simps [of bs c c u])
  next
    case False
    with "1.prems" have ne: "bs \<noteq> []" and fit: "\<not> c < b + char_width bs"
      by (auto simp: byte_scan.simps [of bs c b u] split: if_splits)
    with False "1.prems"
    have "byte_scan (drop (char_width bs) bs) c (b + char_width bs)
            (u + utf16_units (char_width bs)) = Inr r"
      by (simp add: byte_scan.simps [of bs c b u])
    with "1.IH" [OF False ne fit] show ?thesis by simp
  qed
qed

lemma utf16_scan_inverts_byte_scan:
  "byte_scan bs c b u = Inr r \<Longrightarrow> utf16_scan bs r u b = Inr c"
proof (induction bs c b u rule: byte_scan.induct)
  case (1 bs c b u)
  show ?case
  proof (cases "b = c")
    case True
    with "1.prems" have "r = u"
      by (simp add: byte_scan.simps [of bs c c u])
    moreover have "utf16_scan bs u u c = Inr c"
      by (simp add: utf16_scan.simps [of bs u u c])
    ultimately show ?thesis
      using True by simp
  next
    case False
    with "1.prems" have ne: "bs \<noteq> []" and fit: "\<not> c < b + char_width bs"
      by (auto simp: byte_scan.simps [of bs c b u] split: if_splits)
    with False "1.prems"
    have step: "byte_scan (drop (char_width bs) bs) c (b + char_width bs)
            (u + utf16_units (char_width bs)) = Inr r"
      by (simp add: byte_scan.simps [of bs c b u])
    then have "u + utf16_units (char_width bs) \<le> r"
      by (rule byte_scan_units_le)
    with utf16_units_pos [of "char_width bs"]
    have "u \<noteq> r" and "\<not> r < u + utf16_units (char_width bs)"
      by simp_all
    with ne "1.IH" [OF False ne fit step] show ?thesis
      by (simp add: utf16_scan.simps [of bs r u b])
  qed
qed

lemma char_boundary_byte_scan:
  "char_boundary bs k \<Longrightarrow> \<exists>r. byte_scan bs (b + k) b u = Inr r"
proof (induction bs k arbitrary: b u rule: char_boundary.induct)
  case (1 bs k)
  show ?case
  proof (cases "k = 0")
    case True
    then show ?thesis by (simp add: byte_scan.simps [of bs b b u])
  next
    case False
    with "1.prems" have ne: "bs \<noteq> []" and fit: "\<not> k < char_width bs"
      and rest: "char_boundary (drop (char_width bs) bs) (k - char_width bs)"
      by (auto simp: char_boundary.simps [of bs k] split: if_splits)
    from "1.IH" [OF False ne fit rest]
    obtain r where "byte_scan (drop (char_width bs) bs)
        (b + char_width bs + (k - char_width bs)) (b + char_width bs)
        (u + utf16_units (char_width bs)) = Inr r"
      by blast
    with False ne fit show ?thesis
      by (simp add: byte_scan.simps [of bs "b + k" b u])
  qed
qed

lemma char_boundary_length: "char_boundary bs k \<Longrightarrow> k \<le> length bs"
proof (induction bs k rule: char_boundary.induct)
  case (1 bs k)
  show ?case
  proof (cases "k = 0")
    case True
    then show ?thesis by simp
  next
    case False
    with "1.prems" have ne: "bs \<noteq> []" and fit: "\<not> k < char_width bs"
      and rest: "char_boundary (drop (char_width bs) bs) (k - char_width bs)"
      by (auto simp: char_boundary.simps [of bs k] split: if_splits)
    from "1.IH" [OF False ne fit rest] fit char_width_le [of bs] show ?thesis by simp
  qed
qed

lemma boundary_column_inverse:
  assumes "char_boundary bs byteCol"
  shows "\<exists>u. utf16ColumnForByteColumn bs byteCol = Inr u \<and>
             byteColumnForUtf16 bs u = Inr byteCol"
proof -
  from char_boundary_byte_scan [OF assms, of 0 0]
  obtain u where "byte_scan bs byteCol 0 0 = Inr u"
    by auto
  then show ?thesis
    by (auto simp: utf16ColumnForByteColumn_def byteColumnForUtf16_def
        dest: utf16_scan_inverts_byte_scan)
qed

text \<open>
  Claim C8. For the bytes of a line and a byte column that lands on a character boundary
  (and so does not exceed the line length), \<open>utf16ColumnForByteColumn\<close> succeeds, and
  \<open>byteColumnForUtf16\<close> applied to its result returns the original byte column.
\<close>

theorem utf16_column_inverse:
  assumes "char_boundary bs byteCol"
  shows "byteCol \<le> length bs \<and>
         (\<exists>u. utf16ColumnForByteColumn bs byteCol = Inr u \<and>
              byteColumnForUtf16 bs u = Inr byteCol)"
  using assms by (simp add: char_boundary_length boundary_column_inverse)

theorem utf16_column_inverse_witness:
  "char_boundary [0x61, 0xF0, 0x90, 0x90, 0x80, 0x62] 5 \<and>
   5 \<le> length [0x61 :: byte, 0xF0, 0x90, 0x90, 0x80, 0x62] \<and>
   utf16ColumnForByteColumn [0x61, 0xF0, 0x90, 0x90, 0x80, 0x62] 5 = Inr 3 \<and>
   byteColumnForUtf16 [0x61, 0xF0, 0x90, 0x90, 0x80, 0x62] 3 = Inr 5"
proof -
  have b: "char_boundary [0x61, 0xF0, 0x90, 0x90, 0x80, 0x62] 5"
    by code_simp
  have u: "utf16ColumnForByteColumn [0x61, 0xF0, 0x90, 0x90, 0x80, 0x62] 5 = Inr 3"
    by code_simp
  from utf16_column_inverse [OF b] u b show ?thesis
    by simp
qed

section \<open>Decoding across line boundaries\<close>

lemma terminator_not_continuation: "\<not> is_continuation terminator"
  by (simp add: is_continuation_def terminator_def)

lemma continuations_nth:
  "continuations n bs \<Longrightarrow> i < n \<Longrightarrow> is_continuation (bs ! i)"
  by (simp add: continuations_def list_all_length)

lemma char_width_inner:
  assumes "0 < j" and "j < char_width bs"
  shows "is_continuation (bs ! j)"
proof (cases bs)
  case Nil
  with assms show ?thesis by (simp add: char_width_def)
next
  case (Cons b rest)
  from assms obtain i where j: "j = Suc i" by (cases j) auto
  from assms Cons j have "continuations (char_width bs - 1) rest \<and> i < char_width bs - 1"
    by (auto simp: char_width_def split: if_splits)
  then have "is_continuation (rest ! i)"
    by (auto intro: continuations_nth)
  with Cons j show ?thesis by simp
qed

lemma continuations_append:
  assumes "rest = [] \<or> \<not> is_continuation (hd rest)"
  shows "continuations n (xs @ rest) = continuations n xs"
proof (cases "n \<le> length xs")
  case True
  then show ?thesis by (simp add: continuations_def)
next
  case False
  then have "\<not> continuations n xs" by (simp add: continuations_def)
  moreover have "\<not> continuations n (xs @ rest)"
  proof (cases rest)
    case Nil
    with False show ?thesis by (simp add: continuations_def)
  next
    case (Cons r rs)
    with assms have r: "\<not> is_continuation r" by simp
    from False Cons have "length xs < length (take n (xs @ rest))"
      by simp
    moreover from False have "take n (xs @ rest) ! length xs = (xs @ rest) ! length xs"
      by (intro nth_take) simp
    with Cons have "take n (xs @ rest) ! length xs = r"
      by simp
    moreover note r
    ultimately
    have "\<not> list_all is_continuation (take n (xs @ rest))"
      unfolding list_all_length by metis
    then show ?thesis by (simp add: continuations_def)
  qed
  ultimately show ?thesis by simp
qed

lemma char_width_append:
  assumes "xs \<noteq> []" and "rest = [] \<or> \<not> is_continuation (hd rest)"
  shows "char_width (xs @ rest) = char_width xs"
  using assms(1) continuations_append [OF assms(2)]
  by (cases xs) (simp_all add: char_width_def)

lemma char_boundary_zero: "char_boundary bs 0"
  by (simp add: char_boundary.simps [of bs 0])

lemma char_boundary_step:
  assumes "0 < k"
  shows "char_boundary bs k \<longleftrightarrow>
           bs \<noteq> [] \<and> char_width bs \<le> k \<and>
           char_boundary (drop (char_width bs) bs) (k - char_width bs)"
  using assms by (auto simp: char_boundary.simps [of bs k])

text \<open>The byte after a terminator starts a character.\<close>

lemma char_boundary_after_terminator:
  "j < length bs \<Longrightarrow> bs ! j = terminator \<Longrightarrow> char_boundary bs (Suc j)"
proof (induction bs "Suc j" arbitrary: j rule: char_boundary.induct)
  case (1 bs)
  from "1.prems" have ne: "bs \<noteq> []" by auto
  show ?case
  proof (cases "j < char_width bs")
    case True
    have "j = 0"
    proof (rule ccontr)
      assume "j \<noteq> 0"
      with True have "is_continuation (bs ! j)" by (intro char_width_inner) simp_all
      with "1.prems" show False by (simp add: terminator_not_continuation)
    qed
    with "1.prems" ne have "char_width bs = 1"
      by (cases bs) (simp_all add: char_width_def terminator_def)
    with \<open>j = 0\<close> ne show ?thesis
      by (simp add: char_boundary_step char_boundary_zero)
  next
    case False
    then have le: "char_width bs \<le> j" by simp
    with char_width_pos [OF ne] obtain j' where j': "j = Suc j'" by (cases j) auto
    have fit: "\<not> Suc j < char_width bs" using le by simp
    have eq: "Suc j - char_width bs = Suc (j - char_width bs)" using le by simp
    have "char_boundary (drop (char_width bs) bs) (Suc (j - char_width bs))"
      using "1.prems" le by (intro "1.hyps" [OF _ ne fit eq]) simp_all
    with ne le show ?thesis
      by (simp add: char_boundary_step eq)
  qed
qed

text \<open>Boundaries seen from an earlier boundary.\<close>

lemma char_boundary_drop:
  "char_boundary bs p \<Longrightarrow> char_boundary bs k \<Longrightarrow> p \<le> k \<Longrightarrow>
     char_boundary (drop p bs) (k - p)"
proof (induction bs p arbitrary: k rule: char_boundary.induct)
  case (1 bs p)
  show ?case
  proof (cases "p = 0")
    case True
    with "1.prems" show ?thesis by simp
  next
    case False
    with "1.prems" have ne: "bs \<noteq> []" and fit: "\<not> p < char_width bs"
      and rest: "char_boundary (drop (char_width bs) bs) (p - char_width bs)"
      by (simp_all add: char_boundary_step)
    from False "1.prems" have "0 < k" by simp
    with "1.prems" have restk: "char_boundary (drop (char_width bs) bs) (k - char_width bs)"
      by (simp add: char_boundary_step)
    have "char_boundary (drop (p - char_width bs) (drop (char_width bs) bs))
            (k - char_width bs - (p - char_width bs))"
      using "1.prems" by (intro "1.IH" [OF False ne fit rest restk]) simp
    with fit "1.prems" show ?thesis by simp
  qed
qed

text \<open>Boundaries of a line cut off before a byte that continues no character.\<close>

lemma char_boundary_prefix:
  "char_boundary (xs @ rest) k \<Longrightarrow> k \<le> length xs \<Longrightarrow>
     rest = [] \<or> \<not> is_continuation (hd rest) \<Longrightarrow> char_boundary xs k"
proof (induction xs k rule: char_boundary.induct)
  case (1 xs k)
  show ?case
  proof (cases "k = 0")
    case True
    then show ?thesis by (simp add: char_boundary_zero)
  next
    case False
    with "1.prems" have ne: "xs \<noteq> []" by auto
    then have w: "char_width (xs @ rest) = char_width xs"
      using "1.prems"(3) by (rule char_width_append)
    from False "1.prems"(1) w have fit: "\<not> k < char_width xs"
      and step: "char_boundary (drop (char_width xs) (xs @ rest)) (k - char_width xs)"
      by (simp_all add: char_boundary_step)
    from fit "1.prems"(2) have "char_width xs \<le> length xs" by simp
    with step have "char_boundary (drop (char_width xs) xs @ rest) (k - char_width xs)"
      by simp
    then have "char_boundary (drop (char_width xs) xs) (k - char_width xs)"
      using "1.prems"(2,3) by (intro "1.IH" [OF False ne fit]) simp_all
    with False ne fit show ?thesis
      by (simp add: char_boundary_step)
  qed
qed

section \<open>The line table\<close>

lemma search_post:
  "lo < hi \<Longrightarrow> hi \<le> length t \<Longrightarrow> t ! lo \<le> off \<Longrightarrow>
   (hi < length t \<longrightarrow> off < t ! hi) \<Longrightarrow>
     search t off lo hi < length t \<and> t ! search t off lo hi \<le> off \<and>
     (Suc (search t off lo hi) < length t \<longrightarrow> off < t ! Suc (search t off lo hi))"
proof (induction t off lo hi rule: search.induct)
  case (1 t off lo hi)
  show ?case
  proof (cases "hi \<le> Suc lo")
    case True
    with "1.prems" have "hi = Suc lo" by simp
    with "1.prems" show ?thesis
      by (simp add: search.simps [of t off lo "Suc lo"])
  next
    case False
    define mid where "mid = (lo + hi) div 2"
    from False have mid: "lo < mid" "mid < hi"
      by (simp_all add: mid_def)
    show ?thesis
    proof (cases "t ! mid \<le> off")
      case True
      have "search t off lo hi = search t off mid hi"
        using False True by (simp add: search.simps [of t off lo hi] mid_def)
      moreover have "search t off mid hi < length t \<and> t ! search t off mid hi \<le> off \<and>
          (Suc (search t off mid hi) < length t \<longrightarrow> off < t ! Suc (search t off mid hi))"
        using "1.prems" mid True
        by (intro "1.IH"(1) [OF False mid_def True]) simp_all
      ultimately show ?thesis by simp
    next
      case above: False
      have "search t off lo hi = search t off lo mid"
        using False above by (simp add: search.simps [of t off lo hi] mid_def)
      moreover have "search t off lo mid < length t \<and> t ! search t off lo mid \<le> off \<and>
          (Suc (search t off lo mid) < length t \<longrightarrow> off < t ! Suc (search t off lo mid))"
        using "1.prems" mid above
        by (intro "1.IH"(2) [OF False mid_def above]) simp_all
      ultimately show ?thesis by simp
    qed
  qed
qed

lemma scan_lines_entry:
  "x \<in> set (scan_lines i bs) \<Longrightarrow>
     i < x \<and> x \<le> i + length bs \<and> bs ! (x - Suc i) = terminator"
proof (induction bs arbitrary: i)
  case Nil
  then show ?case by simp
next
  case (Cons b bs)
  show ?case
  proof (cases "x = Suc i \<and> b = terminator")
    case True
    then show ?thesis by simp
  next
    case False
    with Cons.prems have "x \<in> set (scan_lines (Suc i) bs)"
      by (auto split: if_splits)
    from Cons.IH [OF this] show ?thesis
      by (auto simp: Suc_diff_Suc)
  qed
qed

section \<open>Agreement of the model with the data model\<close>

text \<open>
  The translator from byte columns succeeds on the character boundaries and nowhere else:
  its failure condition is the one the specification gives.
\<close>

lemma byte_scan_boundary:
  "byte_scan bs c b u = Inr r \<Longrightarrow> b \<le> c \<and> char_boundary bs (c - b)"
proof (induction bs c b u rule: byte_scan.induct)
  case (1 bs c b u)
  show ?case
  proof (cases "b = c")
    case True
    then show ?thesis by (simp add: char_boundary_zero)
  next
    case False
    with "1.prems" have ne: "bs \<noteq> []" and fit: "\<not> c < b + char_width bs"
      by (auto simp: byte_scan.simps [of bs c b u] split: if_splits)
    with False "1.prems"
    have "byte_scan (drop (char_width bs) bs) c (b + char_width bs)
            (u + utf16_units (char_width bs)) = Inr r"
      by (simp add: byte_scan.simps [of bs c b u])
    from "1.IH" [OF False ne fit this]
    have "char_boundary (drop (char_width bs) bs) (c - b - char_width bs)"
      by (simp add: diff_diff_left)
    with False ne fit show ?thesis
      by (simp add: char_boundary_step)
  qed
qed

lemma utf16ColumnForByteColumn_succeeds_iff:
  "(\<exists>u. utf16ColumnForByteColumn bs byteCol = Inr u) \<longleftrightarrow> char_boundary bs byteCol"
  using byte_scan_boundary [of bs byteCol 0 0] char_boundary_byte_scan [of bs byteCol 0 0]
  by (auto simp: utf16ColumnForByteColumn_def)

text \<open>The line table starts with \<open>0\<close> and is strictly increasing, as the data model asks.\<close>

lemma scan_lines_increasing: "sorted_wrt (<) (scan_lines i bs)"
proof (induction bs arbitrary: i)
  case Nil
  then show ?case by simp
next
  case (Cons b bs)
  have "Suc i < x" if "x \<in> set (scan_lines (Suc i) bs)" for x
    using scan_lines_entry [OF that] by simp
  with Cons.IH [of "Suc i"] show ?case by simp
qed

lemma build_increasing:
  "lineStarts (build c) ! 0 = 0 \<and> sorted_wrt (<) (lineStarts (build c))"
proof -
  have "0 < x" if "x \<in> set (scan_lines 0 c)" for x
    using scan_lines_entry [OF that] by simp
  then show ?thesis
    by (simp add: build_def scan_lines_increasing)
qed

section \<open>Properties of the mapper\<close>

text \<open>
  Claim C7. For every content and every byte offset \<open>off \<le> length c\<close> that lies on a
  character boundary of the content, \<open>offsetToPosition\<close> succeeds, and
  \<open>positionToOffset\<close> applied to the position it returns gives \<open>off\<close> again.
\<close>

theorem offset_position_round_trip:
  assumes "off \<le> length c" and "char_boundary c off"
  shows "\<exists>p. offsetToPosition (NewMapper c) off = Inr p \<and>
             positionToOffset (NewMapper c) p = Inr off"
proof -
  define t where "t = 0 # scan_lines 0 c"
  define l where "l = search t off 0 (length t)"
  define start where "start = t ! l"
  define stop where "stop = (if Suc l < length t then t ! Suc l - 1 else length c)"
  define lb where "lb = take (stop - start) (drop start c)"
  have table: "lineTable (NewMapper c) = \<lparr>lineStarts = t, contentSize = length c\<rparr>"
    by (simp add: NewMapper_def build_def t_def)
  have cont: "content (NewMapper c) = c"
    by (simp add: NewMapper_def)
  have "0 < length t" and "t ! 0 \<le> off"
    by (simp_all add: t_def)
  then have l: "l < length t" "start \<le> off" "Suc l < length t \<longrightarrow> off < t ! Suc l"
    using search_post [of 0 "length t" t off] by (simp_all add: l_def start_def)
  have line: "lineBytes (NewMapper c) l = lb"
    by (simp add: lineBytes_def table cont Let_def lb_def start_def stop_def)
  have start_boundary: "char_boundary c start"
  proof (cases l)
    case 0
    then show ?thesis by (simp add: start_def t_def char_boundary_zero)
  next
    case (Suc n)
    with l(1) have "start \<in> set (scan_lines 0 c)"
      by (simp add: start_def t_def)
    then have s: "0 < start" "start \<le> length c" "c ! (start - Suc 0) = terminator"
      by (auto dest: scan_lines_entry)
    then have "start - 1 < length c"
      by arith
    then have "char_boundary c (Suc (start - 1))"
      using s(3) by (intro char_boundary_after_terminator) simp_all
    with s(1) show ?thesis by simp
  qed
  have "off \<le> stop \<and> stop \<le> length c \<and>
      (drop stop c = [] \<or> \<not> is_continuation (hd (drop stop c)))"
  proof (cases "Suc l < length t")
    case True
    then have "t ! Suc l \<in> set (scan_lines 0 c)"
      by (simp add: t_def)
    then have x: "0 < t ! Suc l" "t ! Suc l \<le> length c"
      "c ! (t ! Suc l - Suc 0) = terminator"
      by (auto dest: scan_lines_entry)
    from x(1,2) have "t ! Suc l - 1 < length c"
      by arith
    with True x(3) have "stop < length c" and "c ! stop = terminator"
      by (simp_all add: stop_def)
    then have "hd (drop stop c) = terminator"
      by (simp add: hd_drop_conv_nth)
    moreover from True l(3) have "off \<le> stop"
      by (simp add: stop_def)
    ultimately show ?thesis
      using \<open>stop < length c\<close> by (simp add: terminator_not_continuation)
  next
    case False
    with assms(1) show ?thesis by (simp add: stop_def)
  qed
  then have stop: "off \<le> stop" "stop \<le> length c"
    "drop stop c = [] \<or> \<not> is_continuation (hd (drop stop c))"
    by blast+
  have "char_boundary (drop start c) (off - start)"
    using start_boundary assms(2) l(2) by (rule char_boundary_drop)
  moreover have "drop start c = lb @ drop stop c"
  proof -
    from l(2) stop(1) have "stop - start + start = stop"
      by simp
    then have "drop stop c = drop (stop - start) (drop start c)"
      by (simp only: drop_drop)
    then show ?thesis
      unfolding lb_def by (simp only: append_take_drop_id)
  qed
  moreover from l(2) stop(1,2) have "off - start \<le> length lb"
    by (simp add: lb_def)
  ultimately have "char_boundary lb (off - start)"
    using stop(3) by (auto intro: char_boundary_prefix)
  then obtain u where u: "utf16ColumnForByteColumn lb (off - start) = Inr u"
    and inv: "byteColumnForUtf16 lb u = Inr (off - start)"
    using boundary_column_inverse by blast
  have "offsetToPosition (NewMapper c) off = Inr \<lparr>line = l, utf16Column = u\<rparr>"
    using assms(1) u
    by (simp add: offsetToPosition_def lineOfOffset_def table line l_def [symmetric]
        start_def [symmetric])
  moreover have "positionToOffset (NewMapper c) \<lparr>line = l, utf16Column = u\<rparr> = Inr off"
    using l(1,2) inv
    by (simp add: positionToOffset_def offsetOfLine_def table line start_def [symmetric])
  ultimately show ?thesis by blast
qed

theorem offset_position_round_trip_witness:
  "7 \<le> length [0x61 :: byte, 0x0A, 0xF0, 0x90, 0x90, 0x80, 0x62, 0x63] \<and>
   char_boundary [0x61, 0x0A, 0xF0, 0x90, 0x90, 0x80, 0x62, 0x63] 7 \<and>
   offsetToPosition (NewMapper [0x61, 0x0A, 0xF0, 0x90, 0x90, 0x80, 0x62, 0x63]) 7 =
     Inr \<lparr>line = 1, utf16Column = 3\<rparr> \<and>
   positionToOffset (NewMapper [0x61, 0x0A, 0xF0, 0x90, 0x90, 0x80, 0x62, 0x63])
     \<lparr>line = 1, utf16Column = 3\<rparr> = Inr 7"
proof -
  have n: "7 \<le> length [0x61 :: byte, 0x0A, 0xF0, 0x90, 0x90, 0x80, 0x62, 0x63]"
    by simp
  have b: "char_boundary [0x61, 0x0A, 0xF0, 0x90, 0x90, 0x80, 0x62, 0x63] 7"
    by code_simp
  have p: "offsetToPosition (NewMapper [0x61, 0x0A, 0xF0, 0x90, 0x90, 0x80, 0x62, 0x63]) 7 =
     Inr \<lparr>line = 1, utf16Column = 3\<rparr>"
    by code_simp
  from offset_position_round_trip [OF n b] p n b show ?thesis
    by simp
qed

text \<open>
  Claim C5. The content is the single line \<open>a\<close>, U+10400, \<open>b\<close>: the bytes
  \<open>61 F0 90 90 80 62\<close>. The UTF-16 columns 0, 1, 2, 3, 4 map to the byte offsets
  0, 1, 1, 5, 6: column 2, on the second unit of the surrogate pair, is rounded down to the
  start of the character. Column 5 fails. These are the expectations of the first six
  rows of \<^verbatim>\<open>TestBytesOffset\<close>.
\<close>

theorem surrogate_rounding:
  "positionToOffset (NewMapper [0x61, 0xF0, 0x90, 0x90, 0x80, 0x62])
     \<lparr>line = 0, utf16Column = 0\<rparr> = Inr 0 \<and>
   positionToOffset (NewMapper [0x61, 0xF0, 0x90, 0x90, 0x80, 0x62])
     \<lparr>line = 0, utf16Column = 1\<rparr> = Inr 1 \<and>
   positionToOffset (NewMapper [0x61, 0xF0, 0x90, 0x90, 0x80, 0x62])
     \<lparr>line = 0, utf16Column = 2\<rparr> = Inr 1 \<and>
   positionToOffset (NewMapper [0x61, 0xF0, 0x90, 0x90, 0x80, 0x62])
     \<lparr>line = 0, utf16Column = 3\<rparr> = Inr 5 \<and>
   positionToOffset (NewMapper [0x61, 0xF0, 0x90, 0x90, 0x80, 0x62])
     \<lparr>line = 0, utf16Column = 4\<rparr> = Inr 6 \<and>
   positionToOffset (NewMapper [0x61, 0xF0, 0x90, 0x90, 0x80, 0x62])
     \<lparr>line = 0, utf16Column = 5\<rparr> = Inl InvalidColumn"
  by code_simp

text \<open>
  Claim C6. For the content \<open>aaa\<close>, line feed, \<open>bbb\<close>, line feed, the positions (0,3),
  (1,0), (1,3), (2,0) map to the offsets 3, 4, 7, 8, and (0,4), (1,4), (2,1) fail; with one
  more line feed appended, (2,0) still maps to 8. These are the expectations of the last
  eight rows of \<^verbatim>\<open>TestBytesOffset\<close>.
\<close>

theorem line_and_EOF_boundaries:
  "positionToOffset (NewMapper [0x61, 0x61, 0x61, 0x0A, 0x62, 0x62, 0x62, 0x0A])
     \<lparr>line = 0, utf16Column = 3\<rparr> = Inr 3 \<and>
   positionToOffset (NewMapper [0x61, 0x61, 0x61, 0x0A, 0x62, 0x62, 0x62, 0x0A])
     \<lparr>line = 0, utf16Column = 4\<rparr> = Inl InvalidColumn \<and>
   positionToOffset (NewMapper [0x61, 0x61, 0x61, 0x0A, 0x62, 0x62, 0x62, 0x0A])
     \<lparr>line = 1, utf16Column = 0\<rparr> = Inr 4 \<and>
   positionToOffset (NewMapper [0x61, 0x61, 0x61, 0x0A, 0x62, 0x62, 0x62, 0x0A])
     \<lparr>line = 1, utf16Column = 3\<rparr> = Inr 7 \<and>
   positionToOffset (NewMapper [0x61, 0x61, 0x61, 0x0A, 0x62, 0x62, 0x62, 0x0A])
     \<lparr>line = 1, utf16Column = 4\<rparr> = Inl InvalidColumn \<and>
   positionToOffset (NewMapper [0x61, 0x61, 0x61, 0x0A, 0x62, 0x62, 0x62, 0x0A])
     \<lparr>line = 2, utf16Column = 0\<rparr> = Inr 8 \<and>
   positionToOffset (NewMapper [0x61, 0x61, 0x61, 0x0A, 0x62, 0x62, 0x62, 0x0A])
     \<lparr>line = 2, utf16Column = 1\<rparr> = Inl InvalidColumn \<and>
   positionToOffset (NewMapper [0x61, 0x61, 0x61, 0x0A, 0x62, 0x62, 0x62, 0x0A, 0x0A])
     \<lparr>line = 2, utf16Column = 0\<rparr> = Inr 8"
  by code_simp

end
